theory Spec2Isabelle
  imports Complex_Main "HOL-Library.Word"
begin

section \<open>Keyboard chatter blocker: the classification functions\<close>

text \<open>
  The repository holds several variants of one decision function. Each keeps a table of
  per-key state and decides, event by event, whether a key press is passed on or
  suppressed. The variants modelled here:
  \<^item> the baseline C++ hook (\<^verbatim>\<open>KbChatterBlocker.cpp\<close>), thresholds 85 / 30 / 150 ms;
  \<^item> the full C++ hook (with the double-tap override), thresholds 81 / 15 / 200 ms and a
    minimum release duration of 20 ms;
  \<^item> the Python classes \<^verbatim>\<open>AdaptiveChatterBlocker\<close> and \<^verbatim>\<open>PatternBasedChatterBlocker\<close>.

  Conventions of the model.
  \<^item> The functions read the clock themselves (\<^verbatim>\<open>GetCurrentTimeMs()\<close>, \<^verbatim>\<open>time.time() * 1000\<close>);
    the reading is an explicit argument \<open>currentTime\<close> of the model.
  \<^item> The global table \<^verbatim>\<open>keyStates\<close> is passed in and returned.
  \<^item> \<^verbatim>\<open>long long\<close> and \<^verbatim>\<open>int\<close> are modelled as \<open>int\<close>: signed overflow is undefined in
    C++, so there is no wrap-around to write out, and the model describes the executions
    in which no subtraction of two clock readings and no increment of the counter
    overflows.
  \<^item> Python's float time stamps are modelled as \<open>real\<close>, that is, with exact arithmetic.
\<close>

subsection \<open>Per-key state of the C++ variants\<close>

type_synonym DWORD = "32 word"

record KeyState =
  lastPressTime :: int
  lastReleaseTime :: int
  inRepeatMode :: bool
  blockedCount :: int

text \<open>The default member initialisers of \<^verbatim>\<open>struct KeyState\<close>.\<close>

definition KeyState_default :: KeyState where
  "KeyState_default =
     \<lparr>lastPressTime = 0, lastReleaseTime = 0, inRepeatMode = False, blockedCount = 0\<rparr>"

text \<open>
  \<^verbatim>\<open>std::unordered_map<DWORD, KeyState> keyStates\<close>. The expression \<^verbatim>\<open>keyStates[vkCode]\<close>
  yields a reference to the entry of \<open>vkCode\<close>, which is created with the default
  initialisers when the key is not in the table yet.
\<close>

type_synonym keyStates = "DWORD \<rightharpoonup> KeyState"

definition entry :: "keyStates \<Rightarrow> DWORD \<Rightarrow> KeyState" where
  "entry keyStates vkCode =
     (case keyStates vkCode of None \<Rightarrow> KeyState_default | Some state \<Rightarrow> state)"

subsection \<open>The baseline hook\<close>

definition CHATTER_THRESHOLD_MS :: int where
  "CHATTER_THRESHOLD_MS = 85"

definition REPEAT_CHATTER_THRESHOLD_MS :: int where
  "REPEAT_CHATTER_THRESHOLD_MS = 30"

definition REPEAT_TRANSITION_DELAY_MS :: int where
  "REPEAT_TRANSITION_DELAY_MS = 150"

text \<open>
  The body of \<^verbatim>\<open>ShouldBlockKey\<close>, acting on the referenced entry \<open>state\<close>. It returns the
  decision (\<open>True\<close> is "block") and the entry as the body leaves it.
\<close>

definition ShouldBlockKey_entry :: "KeyState \<Rightarrow> bool \<Rightarrow> int \<Rightarrow> bool \<times> KeyState" where
  "ShouldBlockKey_entry state isKeyDown currentTime =
     (if isKeyDown then
        if lastPressTime state = 0 then
          (False, state\<lparr>lastPressTime := currentTime\<rparr>)
        else
          let timeSincePress = currentTime - lastPressTime state;
              (threshold, state1) =
                 (if inRepeatMode state then (REPEAT_CHATTER_THRESHOLD_MS, state)
                  else (CHATTER_THRESHOLD_MS,
                        if timeSincePress > REPEAT_TRANSITION_DELAY_MS
                        then state\<lparr>inRepeatMode := True\<rparr> else state))
          in if timeSincePress < threshold then
               (True, state1\<lparr>blockedCount := blockedCount state1 + 1\<rparr>)
             else (False, state1\<lparr>lastPressTime := currentTime\<rparr>)
      else (False, state\<lparr>lastReleaseTime := currentTime, inRepeatMode := False\<rparr>))"

definition ShouldBlockKey :: "keyStates \<Rightarrow> DWORD \<Rightarrow> bool \<Rightarrow> int \<Rightarrow> bool \<times> keyStates" where
  "ShouldBlockKey keyStates vkCode isKeyDown currentTime =
     (let (block, state') = ShouldBlockKey_entry (entry keyStates vkCode) isKeyDown currentTime
      in (block, keyStates(vkCode \<mapsto> state')))"

subsection \<open>The full hook, with the double-tap override\<close>

text \<open>
  The second hook has its own constants; two of them have the names of the baseline's
  with other values and carry the suffix \<open>_full\<close> here, as does the function.
\<close>

definition INITIAL_CHATTER_THRESHOLD_MS :: int where
  "INITIAL_CHATTER_THRESHOLD_MS = 81"

definition REPEAT_CHATTER_THRESHOLD_MS_full :: int where
  "REPEAT_CHATTER_THRESHOLD_MS_full = 15"

definition REPEAT_TRANSITION_DELAY_MS_full :: int where
  "REPEAT_TRANSITION_DELAY_MS_full = 200"

definition MIN_RELEASE_DURATION_MS :: int where
  "MIN_RELEASE_DURATION_MS = 20"

definition ShouldBlockKey_full_entry :: "KeyState \<Rightarrow> bool \<Rightarrow> int \<Rightarrow> bool \<times> KeyState" where
  "ShouldBlockKey_full_entry state isKeyDown currentTime =
     (if isKeyDown then
        if lastPressTime state = 0 then
          (False, state\<lparr>lastPressTime := currentTime\<rparr>)
        else
          let timeSincePress = currentTime - lastPressTime state;
              timeSinceRelease = currentTime - lastReleaseTime state
          in if lastReleaseTime state > lastPressTime state \<and>
                timeSinceRelease \<ge> MIN_RELEASE_DURATION_MS then
               (False, state\<lparr>lastPressTime := currentTime, inRepeatMode := False\<rparr>)
             else
               let (threshold, state1) =
                      (if inRepeatMode state then (REPEAT_CHATTER_THRESHOLD_MS_full, state)
                       else (INITIAL_CHATTER_THRESHOLD_MS,
                             if timeSincePress > REPEAT_TRANSITION_DELAY_MS_full
                             then state\<lparr>inRepeatMode := True\<rparr> else state))
               in if timeSincePress < threshold then
                    (True, state1\<lparr>blockedCount := blockedCount state1 + 1\<rparr>)
                  else (False, state1\<lparr>lastPressTime := currentTime\<rparr>)
      else (False, state\<lparr>lastReleaseTime := currentTime, inRepeatMode := False\<rparr>))"

definition ShouldBlockKey_full :: "keyStates \<Rightarrow> DWORD \<Rightarrow> bool \<Rightarrow> int \<Rightarrow> bool \<times> keyStates" where
  "ShouldBlockKey_full keyStates vkCode isKeyDown currentTime =
     (let (block, state') =
            ShouldBlockKey_full_entry (entry keyStates vkCode) isKeyDown currentTime
      in (block, keyStates(vkCode \<mapsto> state')))"

subsection \<open>Sequences of events\<close>

text \<open>
  The hook procedure calls the decision function once for each event it hands to it
  (the full hook leaves the key-down event of the escape key to the next hook without a
  call). Such a call is described by the key, the direction (\<open>True\<close> for key-down) and
  the clock reading taken in the call. \<open>run_events\<close> makes the calls of a list in order,
  for a decision function \<open>f\<close>, and returns the decisions together with the final table;
  \<open>decisions_for k\<close> keeps the decisions of the calls for key \<open>k\<close> only.
\<close>

fun run_events ::
  "('s \<Rightarrow> 'k \<Rightarrow> bool \<Rightarrow> 't \<Rightarrow> bool \<times> 's) \<Rightarrow> 's \<Rightarrow> ('k \<times> bool \<times> 't) list \<Rightarrow> bool list \<times> 's" where
  "run_events f s [] = ([], s)"
| "run_events f s ((k, isKeyDown, t) # es) =
     (let (block, s') = f s k isKeyDown t;
          (blocks, s'') = run_events f s' es
      in (block # blocks, s''))"

fun decisions_for ::
  "'k \<Rightarrow> ('s \<Rightarrow> 'k \<Rightarrow> bool \<Rightarrow> 't \<Rightarrow> bool \<times> 's) \<Rightarrow> 's \<Rightarrow> ('k \<times> bool \<times> 't) list \<Rightarrow> bool list" where
  "decisions_for key f s [] = []"
| "decisions_for key f s ((k, isKeyDown, t) # es) =
     (let (block, s') = f s k isKeyDown t
      in (if k = key then [block] else []) @ decisions_for key f s' es)"

text \<open>A burst of key-down events of one key at the given clock readings.\<close>

definition presses :: "'k \<Rightarrow> 't list \<Rightarrow> ('k \<times> bool \<times> 't) list" where
  "presses k ts = map (\<lambda>t. (k, True, t)) ts"


subsection \<open>The Python class AdaptiveChatterBlocker\<close>

text \<open>
  The four \<^verbatim>\<open>defaultdict\<close>s are total functions from the key string: a key that was never
  stored reads as the default of its value type (\<open>0.0\<close>, \<open>False\<close>, \<open>0\<close>). The
  constants of the Python module carry the suffix \<open>_py\<close>.
\<close>

record AdaptiveChatterBlocker =
  last_press_time :: "string \<Rightarrow> real"
  last_release_time :: "string \<Rightarrow> real"
  in_repeat_mode :: "string \<Rightarrow> bool"
  blocked_count :: "string \<Rightarrow> int"

definition AdaptiveChatterBlocker_init :: AdaptiveChatterBlocker where
  "AdaptiveChatterBlocker_init =
     \<lparr>last_press_time = (\<lambda>_. 0), last_release_time = (\<lambda>_. 0),
      in_repeat_mode = (\<lambda>_. False), blocked_count = (\<lambda>_. 0)\<rparr>"

definition INITIAL_CHATTER_THRESHOLD_MS_py :: real where
  "INITIAL_CHATTER_THRESHOLD_MS_py = 50"

definition REPEAT_CHATTER_THRESHOLD_MS_py :: real where
  "REPEAT_CHATTER_THRESHOLD_MS_py = 15"

definition REPEAT_TRANSITION_DELAY_MS_py :: real where
  "REPEAT_TRANSITION_DELAY_MS_py = 200"

text \<open>\<^verbatim>\<open>should_block_key(self, key)\<close>; \<open>key_str\<close> is \<^verbatim>\<open>str(key)\<close>.\<close>

definition should_block_key ::
  "AdaptiveChatterBlocker \<Rightarrow> string \<Rightarrow> real \<Rightarrow> bool \<times> AdaptiveChatterBlocker" where
  "should_block_key self key_str current_time =
     (let last_press = last_press_time self key_str;
          time_since_press = current_time - last_press;
          (threshold, self1) =
             (if in_repeat_mode self key_str then (REPEAT_CHATTER_THRESHOLD_MS_py, self)
              else (INITIAL_CHATTER_THRESHOLD_MS_py,
                    if time_since_press > REPEAT_TRANSITION_DELAY_MS_py
                    then self\<lparr>in_repeat_mode := (in_repeat_mode self)(key_str := True)\<rparr>
                    else self))
      in if time_since_press < threshold then
           (True, self1\<lparr>blocked_count :=
                           (blocked_count self1)(key_str := blocked_count self1 key_str + 1)\<rparr>)
         else
           (False, self1\<lparr>last_press_time := (last_press_time self1)(key_str := current_time)\<rparr>))"

text \<open>
  \<^verbatim>\<open>on_release(self, key)\<close>. The method returns \<^verbatim>\<open>False\<close> for the escape key, which stops the
  listener, and \<^verbatim>\<open>None\<close> otherwise; the model returns \<open>Some False\<close> and \<open>None\<close>. The
  string of the escape key is \<^verbatim>\<open>Key.esc\<close>.
\<close>

definition on_release ::
  "AdaptiveChatterBlocker \<Rightarrow> string \<Rightarrow> real \<Rightarrow> bool option \<times> AdaptiveChatterBlocker" where
  "on_release self key_str current_time =
     (let self1 = self\<lparr>last_release_time := (last_release_time self)(key_str := current_time)\<rparr>;
          self2 = self1\<lparr>in_repeat_mode := (in_repeat_mode self1)(key_str := False)\<rparr>
      in (if key_str = ''Key.esc'' then Some False else None, self2))"

text \<open>The four values the class stores for one key.\<close>

definition key_fields :: "AdaptiveChatterBlocker \<Rightarrow> string \<Rightarrow> real \<times> real \<times> bool \<times> int" where
  "key_fields self key_str =
     (last_press_time self key_str, last_release_time self key_str,
      in_repeat_mode self key_str, blocked_count self key_str)"

subsection \<open>The Python class PatternBasedChatterBlocker\<close>

text \<open>
  The attributes \<^verbatim>\<open>last_release_time\<close> and \<^verbatim>\<open>blocked_count\<close> and the method
  \<^verbatim>\<open>should_block_key\<close> of this class carry the prefix \<open>pattern_\<close>, the plain names being
  those of the other class.
\<close>

record PatternBasedChatterBlocker =
  press_history :: "string \<Rightarrow> real list"
  pattern_last_release_time :: "string \<Rightarrow> real"
  pattern_blocked_count :: "string \<Rightarrow> int"
  history_size :: nat

definition PatternBasedChatterBlocker_init :: PatternBasedChatterBlocker where
  "PatternBasedChatterBlocker_init =
     \<lparr>press_history = (\<lambda>_. []), pattern_last_release_time = (\<lambda>_. 0),
      pattern_blocked_count = (\<lambda>_. 0), history_size = 5\<rparr>"

text \<open>
  Python's list indexing with a possibly negative index. Every use below is guarded by
  a length test that keeps the index in range.
\<close>

definition py_index :: "'a list \<Rightarrow> int \<Rightarrow> 'a" where
  "py_index xs i = xs ! nat (if i < 0 then int (length xs) + i else i)"

text \<open>
  \<^verbatim>\<open>[history[i] - history[i-1] for i in range(-2, 0)]\<close> and the average
  \<^verbatim>\<open>sum(intervals) / len(intervals)\<close>.
\<close>

definition intervals :: "real list \<Rightarrow> real list" where
  "intervals history = map (\<lambda>i. py_index history i - py_index history (i - 1)) [-2, -1]"

definition avg_interval :: "real list \<Rightarrow> real" where
  "avg_interval history = sum_list (intervals history) / real (length (intervals history))"

definition pattern_should_block_key ::
  "PatternBasedChatterBlocker \<Rightarrow> string \<Rightarrow> real \<Rightarrow> bool \<times> PatternBasedChatterBlocker" where
  "pattern_should_block_key self key_str current_time =
     (let history = press_history self key_str in
      if history = [] then
        (False, self\<lparr>press_history := (press_history self)(key_str := history @ [current_time])\<rparr>)
      else
        let time_since_last = current_time - py_index history (-1) in
        if time_since_last < 20 then
          (True, self\<lparr>pattern_blocked_count :=
                   (pattern_blocked_count self)(key_str := pattern_blocked_count self key_str + 1)\<rparr>)
        else if length history \<ge> 3 \<and> time_since_last < 40 \<and>
                \<bar>time_since_last - avg_interval history\<bar> > 20 then
          (True, self\<lparr>pattern_blocked_count :=
                   (pattern_blocked_count self)(key_str := pattern_blocked_count self key_str + 1)\<rparr>)
        else
          let history1 = history @ [current_time];
              history2 = (if length history1 > history_size self then tl history1 else history1)
          in (False, self\<lparr>press_history := (press_history self)(key_str := history2)\<rparr>))"

section \<open>Properties\<close>

subsection \<open>Single steps on a table\<close>

lemma entry_upd_same: "entry (ks(k \<mapsto> s)) k = s"
  by (simp add: entry_def)

lemma entry_Some: "ks k = Some s \<Longrightarrow> entry ks k = s"
  by (simp add: entry_def)

lemma entry_None: "ks k = None \<Longrightarrow> entry ks k = KeyState_default"
  by (simp add: entry_def)

lemma map_upd_same: "ks k = Some s \<Longrightarrow> ks(k \<mapsto> s) = ks"
  by (rule ext) simp

lemma lastPressTime_update_same: "lastPressTime s = v \<Longrightarrow> s\<lparr>lastPressTime := v\<rparr> = s"
  by (cases s) simp

lemma blockedCount_update_same: "blockedCount s = v \<Longrightarrow> s\<lparr>blockedCount := v\<rparr> = s"
  by (cases s) simp

text \<open>The table functions in terms of the body on the entry.\<close>

lemma ShouldBlockKey_table:
  "ShouldBlockKey ks vk d t =
     (fst (ShouldBlockKey_entry (entry ks vk) d t),
      ks(vk \<mapsto> snd (ShouldBlockKey_entry (entry ks vk) d t)))"
  by (simp add: ShouldBlockKey_def split: prod.splits)

lemma ShouldBlockKey_full_table:
  "ShouldBlockKey_full ks vk d t =
     (fst (ShouldBlockKey_full_entry (entry ks vk) d t),
      ks(vk \<mapsto> snd (ShouldBlockKey_full_entry (entry ks vk) d t)))"
  by (simp add: ShouldBlockKey_full_def split: prod.splits)

text \<open>A key-down event on an entry whose \<open>lastPressTime\<close> is the sentinel 0.\<close>

lemma entry_press_unset:
  "lastPressTime s = 0 \<Longrightarrow> ShouldBlockKey_entry s True t = (False, s\<lparr>lastPressTime := t\<rparr>)"
  "lastPressTime s = 0 \<Longrightarrow> ShouldBlockKey_full_entry s True t = (False, s\<lparr>lastPressTime := t\<rparr>)"
  by (simp_all add: ShouldBlockKey_entry_def ShouldBlockKey_full_entry_def)

text \<open>A key-down event on an entry with a recorded press: the branches, with the constants.\<close>

lemma entry_press_set:
  "lastPressTime s \<noteq> 0 \<Longrightarrow>
   ShouldBlockKey_entry s True t =
     (if inRepeatMode s then
        if t - lastPressTime s < 30 then (True, s\<lparr>blockedCount := blockedCount s + 1\<rparr>)
        else (False, s\<lparr>lastPressTime := t\<rparr>)
      else if t - lastPressTime s < 85 then (True, s\<lparr>blockedCount := blockedCount s + 1\<rparr>)
      else if t - lastPressTime s > 150 then (False, s\<lparr>inRepeatMode := True, lastPressTime := t\<rparr>)
      else (False, s\<lparr>lastPressTime := t\<rparr>))"
  by (simp add: ShouldBlockKey_entry_def
      CHATTER_THRESHOLD_MS_def REPEAT_CHATTER_THRESHOLD_MS_def REPEAT_TRANSITION_DELAY_MS_def)

lemma entry_full_press_set:
  "lastPressTime s \<noteq> 0 \<Longrightarrow>
   ShouldBlockKey_full_entry s True t =
     (if lastReleaseTime s > lastPressTime s \<and> t - lastReleaseTime s \<ge> 20 then
        (False, s\<lparr>lastPressTime := t, inRepeatMode := False\<rparr>)
      else if inRepeatMode s then
        if t - lastPressTime s < 15 then (True, s\<lparr>blockedCount := blockedCount s + 1\<rparr>)
        else (False, s\<lparr>lastPressTime := t\<rparr>)
      else if t - lastPressTime s < 81 then (True, s\<lparr>blockedCount := blockedCount s + 1\<rparr>)
      else if t - lastPressTime s > 200 then (False, s\<lparr>inRepeatMode := True, lastPressTime := t\<rparr>)
      else (False, s\<lparr>lastPressTime := t\<rparr>))"
  by (simp add: ShouldBlockKey_full_entry_def Let_def MIN_RELEASE_DURATION_MS_def
      INITIAL_CHATTER_THRESHOLD_MS_def REPEAT_CHATTER_THRESHOLD_MS_full_def
      REPEAT_TRANSITION_DELAY_MS_full_def)

lemma run_events_Cons:
  "run_events f s ((k, d, t) # es) =
     (fst (f s k d t) # fst (run_events f (snd (f s k d t)) es),
      snd (run_events f (snd (f s k d t)) es))"
  by (simp split: prod.splits)

subsection \<open>Releases\<close>

text \<open>
  Claim C5. A key-up event is never suppressed: for every table, key and clock reading
  both C++ variants return "pass" and store the entry of the key with the clock reading
  as \<open>lastReleaseTime\<close> and with \<open>inRepeatMode\<close> cleared, whatever the entry held
  before. The Python \<^verbatim>\<open>on_release\<close> records the reading and clears the repeat flag of the
  key in the same way.
\<close>

theorem release_passes_and_resets:
  "ShouldBlockKey ks vk False t =
     (False, ks(vk \<mapsto> (entry ks vk)\<lparr>lastReleaseTime := t, inRepeatMode := False\<rparr>))
   \<and> ShouldBlockKey_full ks vk False t =
     (False, ks(vk \<mapsto> (entry ks vk)\<lparr>lastReleaseTime := t, inRepeatMode := False\<rparr>))
   \<and> snd (on_release self key_str ct) =
     self\<lparr>last_release_time := (last_release_time self)(key_str := ct),
          in_repeat_mode := (in_repeat_mode self)(key_str := False)\<rparr>"
  by (simp add: ShouldBlockKey_def ShouldBlockKey_full_def ShouldBlockKey_entry_def
      ShouldBlockKey_full_entry_def on_release_def)

subsection \<open>The first press of a key\<close>

text \<open>
  Claim C6. A key with no recorded press, either absent from the table or with
  \<open>lastPressTime\<close> still at its initial value 0, has its key-down event passed at every
  clock reading \<open>t\<close>, and \<open>t\<close> is stored as \<open>lastPressTime\<close> with the other fields
  untouched. This holds for the baseline and for the full hook.
\<close>

theorem first_press_passes:
  assumes "ks vk = None \<or> lastPressTime (entry ks vk) = 0"
  shows "ShouldBlockKey ks vk True t = (False, ks(vk \<mapsto> (entry ks vk)\<lparr>lastPressTime := t\<rparr>))
       \<and> ShouldBlockKey_full ks vk True t =
           (False, ks(vk \<mapsto> (entry ks vk)\<lparr>lastPressTime := t\<rparr>))"
proof -
  from assms have "lastPressTime (entry ks vk) = 0"
    by (auto simp add: entry_def KeyState_default_def)
  then show ?thesis
    by (simp add: ShouldBlockKey_table ShouldBlockKey_full_table entry_press_unset)
qed

theorem first_press_passes_witness:
  "(Map.empty :: keyStates) 65 = None
   \<and> ShouldBlockKey Map.empty 65 True 1000 =
       (False, [65 \<mapsto> KeyState_default\<lparr>lastPressTime := 1000\<rparr>])
   \<and> ShouldBlockKey_full Map.empty 65 True 0 =
       (False, [65 \<mapsto> KeyState_default\<lparr>lastPressTime := 0\<rparr>])"
  using first_press_passes [of Map.empty 65 1000] first_press_passes [of Map.empty 65 0]
  by (simp add: entry_def)

text \<open>
  Claim C10. The value 0 of \<open>lastPressTime\<close> means "no press yet". A first key-down
  event at clock reading 0 is passed and leaves the entry as it was, so
  \<open>lastPressTime\<close> is still 0; the next key-down event of the key is then passed at
  every clock reading \<open>t\<close>, however close to 0, and \<open>t\<close> becomes the reference. Both
  C++ hooks behave so.
\<close>

theorem sentinel_aliasing:
  assumes "lastPressTime (entry ks vk) = 0"
  shows "ShouldBlockKey ks vk True 0 = (False, ks(vk \<mapsto> entry ks vk))
       \<and> run_events ShouldBlockKey ks [(vk, True, 0), (vk, True, t)] =
           ([False, False], ks(vk \<mapsto> (entry ks vk)\<lparr>lastPressTime := t\<rparr>))
       \<and> ShouldBlockKey_full ks vk True 0 = (False, ks(vk \<mapsto> entry ks vk))
       \<and> run_events ShouldBlockKey_full ks [(vk, True, 0), (vk, True, t)] =
           ([False, False], ks(vk \<mapsto> (entry ks vk)\<lparr>lastPressTime := t\<rparr>))"
  using assms
  by (simp add: ShouldBlockKey_table ShouldBlockKey_full_table entry_press_unset entry_upd_same
      lastPressTime_update_same)

theorem sentinel_aliasing_witness:
  "lastPressTime (entry Map.empty 65) = 0
   \<and> ShouldBlockKey Map.empty 65 True 0 = (False, [65 \<mapsto> KeyState_default])
   \<and> run_events ShouldBlockKey Map.empty [(65, True, 0), (65, True, 1)] =
        ([False, False], [65 \<mapsto> KeyState_default\<lparr>lastPressTime := 1\<rparr>])
   \<and> ShouldBlockKey_full Map.empty 65 True 0 = (False, [65 \<mapsto> KeyState_default])
   \<and> run_events ShouldBlockKey_full Map.empty [(65, True, 0), (65, True, 1)] =
        ([False, False], [65 \<mapsto> KeyState_default\<lparr>lastPressTime := 1\<rparr>])"
proof -
  have e: "entry Map.empty (65 :: DWORD) = KeyState_default"
    by (simp add: entry_def)
  have h: "lastPressTime (entry Map.empty (65 :: DWORD)) = 0"
    by (simp add: e KeyState_default_def)
  show ?thesis
    using h sentinel_aliasing [OF h, of 1] unfolding e
    by (simp del: run_events.simps)
qed

subsection \<open>Thresholds of the baseline hook\<close>

text \<open>
  Claim C4. In the baseline hook (initial threshold 85 ms), for a key whose recorded
  press is at \<open>t0\<close> and which is not in repeat mode, a key-down event at \<open>t0 + 85\<close> is
  passed and becomes the reference, a key-down event at \<open>t0 + 84\<close> is blocked and only
  counted, and in general a key-down event at \<open>t\<close> is blocked exactly when
  \<open>t - t0 < 85\<close>: the comparison is strict. A recorded press means \<open>t0 \<noteq> 0\<close>, since 0
  is the "no press yet" value.
\<close>

theorem threshold_boundary:
  assumes "ks vk = Some s" and "lastPressTime s = t0" and "t0 \<noteq> 0" and "\<not> inRepeatMode s"
  shows "ShouldBlockKey ks vk True (t0 + 85) = (False, ks(vk \<mapsto> s\<lparr>lastPressTime := t0 + 85\<rparr>))
       \<and> ShouldBlockKey ks vk True (t0 + 84) =
           (True, ks(vk \<mapsto> s\<lparr>blockedCount := blockedCount s + 1\<rparr>))
       \<and> fst (ShouldBlockKey ks vk True t) = (t - t0 < CHATTER_THRESHOLD_MS)"
  using assms
  by (simp add: ShouldBlockKey_table entry_Some entry_press_set CHATTER_THRESHOLD_MS_def)

theorem threshold_boundary_witness:
  "[65 \<mapsto> KeyState_default\<lparr>lastPressTime := 1000\<rparr>] (65 :: DWORD)
      = Some (KeyState_default\<lparr>lastPressTime := 1000\<rparr>)
   \<and> lastPressTime (KeyState_default\<lparr>lastPressTime := 1000\<rparr>) = 1000
   \<and> (1000 :: int) \<noteq> 0
   \<and> \<not> inRepeatMode (KeyState_default\<lparr>lastPressTime := 1000\<rparr>)
   \<and> ShouldBlockKey [65 \<mapsto> KeyState_default\<lparr>lastPressTime := 1000\<rparr>] 65 True (1000 + 85)
       = (False, [65 \<mapsto> KeyState_default\<lparr>lastPressTime := 1000 + 85\<rparr>])
   \<and> ShouldBlockKey [65 \<mapsto> KeyState_default\<lparr>lastPressTime := 1000\<rparr>] 65 True (1000 + 84)
       = (True, [65 \<mapsto> KeyState_default\<lparr>lastPressTime := 1000, blockedCount := 1\<rparr>])
   \<and> fst (ShouldBlockKey [65 \<mapsto> KeyState_default\<lparr>lastPressTime := 1000\<rparr>] 65 True 1090)
       = False"
  using threshold_boundary [of "[65 \<mapsto> KeyState_default\<lparr>lastPressTime := 1000\<rparr>]" 65
      "KeyState_default\<lparr>lastPressTime := 1000\<rparr>" 1000 1090]
  by (simp add: KeyState_default_def CHATTER_THRESHOLD_MS_def)

text \<open>
  Claim C2. In the baseline hook (85 / 30 / 150 ms), for a key whose recorded press is
  at \<open>t0\<close> and which is not in repeat mode: a key-down event at \<open>t0 + 151\<close> is passed
  and sets \<open>inRepeatMode\<close>; a following one at \<open>t0 + 151 + 20\<close> is blocked; one at
  \<open>t0 + 151 + 31\<close> is passed, whether or not the blocked one came between. The test for
  entering repeat mode uses the distance to the reference recorded before the event: after
  a key-down event at any \<open>t\<close> the flag is set exactly when \<open>t - t0 > 150\<close>. Both
  references, \<open>t0\<close> and \<open>t0 + 151\<close>, are recorded presses, that is, different from the
  "no press yet" value 0.
\<close>

theorem repeat_mode_transition:
  assumes "ks vk = Some s" and "lastPressTime s = t0" and "t0 \<noteq> 0" and "t0 + 151 \<noteq> 0"
    and "\<not> inRepeatMode s"
  shows "ShouldBlockKey ks vk True (t0 + 151) =
           (False, ks(vk \<mapsto> s\<lparr>inRepeatMode := True, lastPressTime := t0 + 151\<rparr>))
       \<and> run_events ShouldBlockKey ks (presses vk [t0 + 151, t0 + 151 + 20, t0 + 151 + 31]) =
           ([False, True, False],
            ks(vk \<mapsto> s\<lparr>inRepeatMode := True, blockedCount := blockedCount s + 1,
                        lastPressTime := t0 + 151 + 31\<rparr>))
       \<and> run_events ShouldBlockKey ks (presses vk [t0 + 151, t0 + 151 + 31]) =
           ([False, False],
            ks(vk \<mapsto> s\<lparr>inRepeatMode := True, lastPressTime := t0 + 151 + 31\<rparr>))
       \<and> inRepeatMode (entry (snd (ShouldBlockKey ks vk True t)) vk)
            = (t - t0 > REPEAT_TRANSITION_DELAY_MS)"
  using assms
  by (simp add: presses_def run_events_Cons ShouldBlockKey_table entry_Some entry_upd_same
      entry_press_set CHATTER_THRESHOLD_MS_def REPEAT_TRANSITION_DELAY_MS_def)

theorem repeat_mode_transition_witness:
  "[65 \<mapsto> KeyState_default\<lparr>lastPressTime := 1000\<rparr>] (65 :: DWORD)
      = Some (KeyState_default\<lparr>lastPressTime := 1000\<rparr>)
   \<and> lastPressTime (KeyState_default\<lparr>lastPressTime := 1000\<rparr>) = 1000
   \<and> (1000 :: int) \<noteq> 0 \<and> (1000 :: int) + 151 \<noteq> 0
   \<and> \<not> inRepeatMode (KeyState_default\<lparr>lastPressTime := 1000\<rparr>)
   \<and> ShouldBlockKey [65 \<mapsto> KeyState_default\<lparr>lastPressTime := 1000\<rparr>] 65 True 1151 =
        (False, [65 \<mapsto> KeyState_default\<lparr>lastPressTime := 1151, inRepeatMode := True\<rparr>])
   \<and> run_events ShouldBlockKey [65 \<mapsto> KeyState_default\<lparr>lastPressTime := 1000\<rparr>]
         (presses 65 [1151, 1171, 1182]) =
        ([False, True, False],
         [65 \<mapsto> KeyState_default\<lparr>lastPressTime := 1182, inRepeatMode := True,
                                  blockedCount := 1\<rparr>])
   \<and> run_events ShouldBlockKey [65 \<mapsto> KeyState_default\<lparr>lastPressTime := 1000\<rparr>]
         (presses 65 [1151, 1182]) =
        ([False, False],
         [65 \<mapsto> KeyState_default\<lparr>lastPressTime := 1182, inRepeatMode := True\<rparr>])
   \<and> inRepeatMode (entry (snd (ShouldBlockKey
         [65 \<mapsto> KeyState_default\<lparr>lastPressTime := 1000\<rparr>] 65 True 1151)) 65) = True"
  using repeat_mode_transition [of "[65 \<mapsto> KeyState_default\<lparr>lastPressTime := 1000\<rparr>]" 65
      "KeyState_default\<lparr>lastPressTime := 1000\<rparr>" 1000 1151]
  by (simp add: KeyState_default_def CHATTER_THRESHOLD_MS_def REPEAT_TRANSITION_DELAY_MS_def
      entry_def)


subsection \<open>Blocked presses and bursts\<close>

text \<open>
  A key-down event on a key with a recorded press whose distance to that press is under
  the threshold selected for the key's phase is blocked; only the counter changes.
\<close>

lemma blocked_press:
  assumes "ks vk = Some s" and "lastPressTime s \<noteq> 0"
    and "t - lastPressTime s
           < (if inRepeatMode s then REPEAT_CHATTER_THRESHOLD_MS else CHATTER_THRESHOLD_MS)"
  shows "ShouldBlockKey ks vk True t = (True, ks(vk \<mapsto> s\<lparr>blockedCount := blockedCount s + 1\<rparr>))"
  using assms
  by (simp add: ShouldBlockKey_table entry_Some entry_press_set CHATTER_THRESHOLD_MS_def
      REPEAT_CHATTER_THRESHOLD_MS_def split: if_splits)

lemma blocked_press_full:
  assumes "ks vk = Some s" and "lastPressTime s \<noteq> 0"
    and "\<not> (lastReleaseTime s > lastPressTime s \<and> t - lastReleaseTime s \<ge> MIN_RELEASE_DURATION_MS)"
    and "t - lastPressTime s
           < (if inRepeatMode s then REPEAT_CHATTER_THRESHOLD_MS_full
              else INITIAL_CHATTER_THRESHOLD_MS)"
  shows "ShouldBlockKey_full ks vk True t =
           (True, ks(vk \<mapsto> s\<lparr>blockedCount := blockedCount s + 1\<rparr>))"
  using assms
  by (simp add: ShouldBlockKey_full_table entry_Some entry_full_press_set
      INITIAL_CHATTER_THRESHOLD_MS_def REPEAT_CHATTER_THRESHOLD_MS_full_def
      MIN_RELEASE_DURATION_MS_def split: if_splits)

lemma burst_blocked:
  assumes "lastPressTime s \<noteq> 0"
    and "\<forall>t \<in> set ts. t - lastPressTime s
           < (if inRepeatMode s then REPEAT_CHATTER_THRESHOLD_MS else CHATTER_THRESHOLD_MS)"
  shows "ks vk = Some s \<Longrightarrow>
         run_events ShouldBlockKey ks (presses vk ts) =
           (replicate (length ts) True,
            ks(vk \<mapsto> s\<lparr>blockedCount := blockedCount s + int (length ts)\<rparr>))"
  using assms
proof (induction ts arbitrary: ks s)
  case Nil
  then show ?case
    by (simp add: presses_def blockedCount_update_same map_upd_same)
next
  case (Cons t ts)
  let ?s1 = "s\<lparr>blockedCount := blockedCount s + 1\<rparr>"
  let ?ks1 = "ks(vk \<mapsto> ?s1)"
  have step: "ShouldBlockKey ks vk True t = (True, ?ks1)"
    using Cons.prems by (intro blocked_press) simp_all
  have rest: "run_events ShouldBlockKey ?ks1 (presses vk ts) =
                (replicate (length ts) True,
                 ?ks1(vk \<mapsto> ?s1\<lparr>blockedCount := blockedCount ?s1 + int (length ts)\<rparr>))"
    using Cons.prems by (intro Cons.IH) simp_all
  have "run_events ShouldBlockKey ks (presses vk (t # ts)) =
          (True # replicate (length ts) True,
           ?ks1(vk \<mapsto> ?s1\<lparr>blockedCount := blockedCount ?s1 + int (length ts)\<rparr>))"
    unfolding presses_def list.map run_events_Cons step
    using rest by (simp add: presses_def)
  also have "?ks1(vk \<mapsto> ?s1\<lparr>blockedCount := blockedCount ?s1 + int (length ts)\<rparr>) =
      ks(vk \<mapsto> s\<lparr>blockedCount := blockedCount s + int (length (t # ts))\<rparr>)"
    by (simp add: add.assoc)
  finally show ?case by simp
qed


lemma burst_blocked_full:
  assumes "lastPressTime s \<noteq> 0"
    and "\<forall>t \<in> set ts.
           t - lastPressTime s < (if inRepeatMode s then REPEAT_CHATTER_THRESHOLD_MS_full
                                  else INITIAL_CHATTER_THRESHOLD_MS)
           \<and> \<not> (lastReleaseTime s > lastPressTime s
                \<and> t - lastReleaseTime s \<ge> MIN_RELEASE_DURATION_MS)"
  shows "ks vk = Some s \<Longrightarrow>
         run_events ShouldBlockKey_full ks (presses vk ts) =
           (replicate (length ts) True,
            ks(vk \<mapsto> s\<lparr>blockedCount := blockedCount s + int (length ts)\<rparr>))"
  using assms
proof (induction ts arbitrary: ks s)
  case Nil
  then show ?case
    by (simp add: presses_def blockedCount_update_same map_upd_same)
next
  case (Cons t ts)
  let ?s1 = "s\<lparr>blockedCount := blockedCount s + 1\<rparr>"
  let ?ks1 = "ks(vk \<mapsto> ?s1)"
  have step: "ShouldBlockKey_full ks vk True t = (True, ?ks1)"
    using Cons.prems by (intro blocked_press_full) simp_all
  have rest: "run_events ShouldBlockKey_full ?ks1 (presses vk ts) =
                (replicate (length ts) True,
                 ?ks1(vk \<mapsto> ?s1\<lparr>blockedCount := blockedCount ?s1 + int (length ts)\<rparr>))"
    using Cons.prems by (intro Cons.IH) simp_all
  have "run_events ShouldBlockKey_full ks (presses vk (t # ts)) =
          (True # replicate (length ts) True,
           ?ks1(vk \<mapsto> ?s1\<lparr>blockedCount := blockedCount ?s1 + int (length ts)\<rparr>))"
    unfolding presses_def list.map run_events_Cons step
    using rest by (simp add: presses_def)
  also have "?ks1(vk \<mapsto> ?s1\<lparr>blockedCount := blockedCount ?s1 + int (length ts)\<rparr>) =
      ks(vk \<mapsto> s\<lparr>blockedCount := blockedCount s + int (length (t # ts))\<rparr>)"
    by (simp add: add.assoc)
  finally show ?case by simp
qed

text \<open>
  Claim C1, as amended. For a key whose recorded press is at \<open>t0\<close> (\<open>t0 \<noteq> 0\<close>, 0
  being the "no press yet" value), every key-down event whose distance \<open>t - t0\<close> is
  strictly under the threshold of the key's current phase (the initial threshold while
  \<open>inRepeatMode\<close> is false, the repeat threshold while it is true) is blocked, adds one
  to \<open>blockedCount\<close> and leaves \<open>lastPressTime\<close> at \<open>t0\<close>; so a burst \<open>ts\<close> of such
  events is blocked as a whole, and \<open>lastPressTime\<close> is \<open>t0\<close> after every prefix
  \<open>take n ts\<close> of the burst. In the full hook this holds when the double-tap override
  does not apply to the events. In particular, outside repeat mode the baseline hook
  blocks all of the key-down events at \<open>t0 + 1, \<dots>, t0 + k\<close> when \<open>k\<close> is under the
  initial threshold.
\<close>

theorem burst_absorption:
  assumes "ks vk = Some s" and "lastPressTime s = t0" and "t0 \<noteq> 0"
  shows "((\<forall>t \<in> set ts. t - t0 < (if inRepeatMode s then REPEAT_CHATTER_THRESHOLD_MS
                                     else CHATTER_THRESHOLD_MS)) \<longrightarrow>
            run_events ShouldBlockKey ks (presses vk ts) =
              (replicate (length ts) True,
               ks(vk \<mapsto> s\<lparr>blockedCount := blockedCount s + int (length ts)\<rparr>))
            \<and> lastPressTime
                 (entry (snd (run_events ShouldBlockKey ks (presses vk (take n ts)))) vk) = t0)
       \<and> ((\<forall>t \<in> set ts. t - t0 < (if inRepeatMode s then REPEAT_CHATTER_THRESHOLD_MS_full
                                      else INITIAL_CHATTER_THRESHOLD_MS)
                          \<and> \<not> (lastReleaseTime s > t0
                               \<and> t - lastReleaseTime s \<ge> MIN_RELEASE_DURATION_MS)) \<longrightarrow>
            run_events ShouldBlockKey_full ks (presses vk ts) =
              (replicate (length ts) True,
               ks(vk \<mapsto> s\<lparr>blockedCount := blockedCount s + int (length ts)\<rparr>)))
       \<and> (\<not> inRepeatMode s \<and> int k < CHATTER_THRESHOLD_MS \<longrightarrow>
            run_events ShouldBlockKey ks (presses vk (map (\<lambda>i. t0 + int i) [1..<Suc k])) =
              (replicate k True, ks(vk \<mapsto> s\<lparr>blockedCount := blockedCount s + int k\<rparr>)))"
proof (intro conjI impI)
  assume a: "\<forall>t \<in> set ts. t - t0 < (if inRepeatMode s then REPEAT_CHATTER_THRESHOLD_MS
                                     else CHATTER_THRESHOLD_MS)"
  with assms show "run_events ShouldBlockKey ks (presses vk ts) =
      (replicate (length ts) True, ks(vk \<mapsto> s\<lparr>blockedCount := blockedCount s + int (length ts)\<rparr>))"
    by (intro burst_blocked) simp_all
  from a have "\<forall>t \<in> set (take n ts). t - lastPressTime s
       < (if inRepeatMode s then REPEAT_CHATTER_THRESHOLD_MS else CHATTER_THRESHOLD_MS)"
    using assms by (auto dest: in_set_takeD)
  with assms have "run_events ShouldBlockKey ks (presses vk (take n ts)) =
      (replicate (length (take n ts)) True,
       ks(vk \<mapsto> s\<lparr>blockedCount := blockedCount s + int (length (take n ts))\<rparr>))"
    by (intro burst_blocked) simp_all
  then show "lastPressTime
      (entry (snd (run_events ShouldBlockKey ks (presses vk (take n ts)))) vk) = t0"
    using assms by (simp add: entry_upd_same)
next
  assume "\<forall>t \<in> set ts. t - t0 < (if inRepeatMode s then REPEAT_CHATTER_THRESHOLD_MS_full
                                   else INITIAL_CHATTER_THRESHOLD_MS)
                       \<and> \<not> (lastReleaseTime s > t0
                            \<and> t - lastReleaseTime s \<ge> MIN_RELEASE_DURATION_MS)"
  with assms show "run_events ShouldBlockKey_full ks (presses vk ts) =
      (replicate (length ts) True, ks(vk \<mapsto> s\<lparr>blockedCount := blockedCount s + int (length ts)\<rparr>))"
    by (intro burst_blocked_full) simp_all
next
  assume k: "\<not> inRepeatMode s \<and> int k < CHATTER_THRESHOLD_MS"
  let ?ts = "map (\<lambda>i. t0 + int i) [1..<Suc k]"
  have "\<forall>t \<in> set ?ts. t - lastPressTime s
          < (if inRepeatMode s then REPEAT_CHATTER_THRESHOLD_MS else CHATTER_THRESHOLD_MS)"
    using k assms by auto
  with assms have "run_events ShouldBlockKey ks (presses vk ?ts) =
      (replicate (length ?ts) True,
       ks(vk \<mapsto> s\<lparr>blockedCount := blockedCount s + int (length ?ts)\<rparr>))"
    by (intro burst_blocked) simp_all
  then show "run_events ShouldBlockKey ks (presses vk ?ts) =
      (replicate k True, ks(vk \<mapsto> s\<lparr>blockedCount := blockedCount s + int k\<rparr>))"
    by (simp del: upt_Suc)
qed

theorem burst_absorption_witness:
  "[65 \<mapsto> KeyState_default\<lparr>lastPressTime := 1000\<rparr>] (65 :: DWORD)
      = Some (KeyState_default\<lparr>lastPressTime := 1000\<rparr>)
   \<and> lastPressTime (KeyState_default\<lparr>lastPressTime := 1000\<rparr>) = 1000
   \<and> (1000 :: int) \<noteq> 0
   \<and> (1001 :: int) - 1000 < CHATTER_THRESHOLD_MS \<and> (1084 :: int) - 1000 < CHATTER_THRESHOLD_MS
   \<and> (1001 :: int) - 1000 < INITIAL_CHATTER_THRESHOLD_MS
   \<and> (1080 :: int) - 1000 < INITIAL_CHATTER_THRESHOLD_MS
   \<and> \<not> inRepeatMode (KeyState_default\<lparr>lastPressTime := 1000\<rparr>)
   \<and> \<not> lastReleaseTime (KeyState_default\<lparr>lastPressTime := 1000\<rparr>) > 1000
   \<and> int 3 < CHATTER_THRESHOLD_MS
   \<and> run_events ShouldBlockKey [65 \<mapsto> KeyState_default\<lparr>lastPressTime := 1000\<rparr>]
        (presses 65 [1001, 1084]) =
       ([True, True], [65 \<mapsto> KeyState_default\<lparr>lastPressTime := 1000, blockedCount := 2\<rparr>])
   \<and> lastPressTime (entry (snd (run_events ShouldBlockKey
          [65 \<mapsto> KeyState_default\<lparr>lastPressTime := 1000\<rparr>]
          (presses 65 (take 1 [1001, 1084])))) 65) = 1000
   \<and> run_events ShouldBlockKey_full [65 \<mapsto> KeyState_default\<lparr>lastPressTime := 1000\<rparr>]
        (presses 65 [1001, 1080]) =
       ([True, True], [65 \<mapsto> KeyState_default\<lparr>lastPressTime := 1000, blockedCount := 2\<rparr>])
   \<and> run_events ShouldBlockKey [65 \<mapsto> KeyState_default\<lparr>lastPressTime := 1000\<rparr>]
        (presses 65 [1001, 1002, 1003]) =
       ([True, True, True],
        [65 \<mapsto> KeyState_default\<lparr>lastPressTime := 1000, blockedCount := 3\<rparr>])"
proof -
  let ?s = "KeyState_default\<lparr>lastPressTime := 1000\<rparr>"
  let ?ks = "[(65 :: DWORD) \<mapsto> ?s]"
  have h: "?ks 65 = Some ?s" "lastPressTime ?s = 1000" "(1000 :: int) \<noteq> 0"
    by simp_all
  have l: "map (\<lambda>i. 1000 + int i) [1..<Suc 3] = [1001, 1002, 1003]"
    by (simp add: upt_rec)
  have r: "replicate 3 True = [True, True, True]"
    by (simp add: numeral_3_eq_3)
  show ?thesis
    using h burst_absorption [of ?ks 65 ?s 1000 "[1001, 1084]" 1 3]
      burst_absorption [of ?ks 65 ?s 1000 "[1001, 1080]" 1 3]
    unfolding l r
    by (simp add: KeyState_default_def CHATTER_THRESHOLD_MS_def INITIAL_CHATTER_THRESHOLD_MS_def
        MIN_RELEASE_DURATION_MS_def del: run_events.simps)
qed

text \<open>
  The specification states the property with the initial threshold in every phase. The
  baseline hook does not compare so: a first press at 1000 and a press at 1200 are passed, the
  second one sets \<open>inRepeatMode\<close> (200 > 150) and becomes the reference; the press at
  1240 is then 40 ms after the last passed press, under the initial threshold 85, and
  yet it is passed (40 is not under the repeat threshold 30) and moves \<open>lastPressTime\<close>
  to 1240. In the full hook, a press at 1000, a release at 1010 and a press at 1030 are
  all passed: the last one is 30 ms after the last passed press, under the initial
  threshold 81, and is passed by the double-tap override.
\<close>

theorem burst_absorption_counterexample:
  "run_events ShouldBlockKey Map.empty (presses 65 [1000, 1200, 1240]) =
     ([False, False, False],
      [65 \<mapsto> \<lparr>lastPressTime = 1240, lastReleaseTime = 0, inRepeatMode = True,
               blockedCount = 0\<rparr>])
   \<and> (1240 :: int) - 1200 < CHATTER_THRESHOLD_MS
   \<and> run_events ShouldBlockKey_full Map.empty
        [(65, True, 1000), (65, False, 1010), (65, True, 1030)] =
     ([False, False, False],
      [65 \<mapsto> \<lparr>lastPressTime = 1030, lastReleaseTime = 1010, inRepeatMode = False,
               blockedCount = 0\<rparr>])
   \<and> (1030 :: int) - 1000 < INITIAL_CHATTER_THRESHOLD_MS"
  by (simp add: presses_def run_events_Cons ShouldBlockKey_table ShouldBlockKey_full_table
      entry_def ShouldBlockKey_entry_def ShouldBlockKey_full_entry_def KeyState_default_def
      CHATTER_THRESHOLD_MS_def REPEAT_CHATTER_THRESHOLD_MS_def REPEAT_TRANSITION_DELAY_MS_def
      INITIAL_CHATTER_THRESHOLD_MS_def MIN_RELEASE_DURATION_MS_def)


subsection \<open>Durations are never negative\<close>







subsection \<open>The double-tap override of the full hook\<close>

text \<open>
  A key whose \<open>lastPressTime\<close> is still 0 is not in repeat mode. This holds for a
  fresh table and is kept by every event whose clock reading is not 0, in both hooks.
\<close>

lemma unset_not_repeat_entry:
  assumes "lastPressTime s = 0 \<longrightarrow> \<not> inRepeatMode s" and "t \<noteq> 0"
  shows "lastPressTime (snd (ShouldBlockKey_full_entry s d t)) = 0
           \<longrightarrow> \<not> inRepeatMode (snd (ShouldBlockKey_full_entry s d t))"
    and "lastPressTime (snd (ShouldBlockKey_entry s d t)) = 0
           \<longrightarrow> \<not> inRepeatMode (snd (ShouldBlockKey_entry s d t))"
  using assms
  by (auto simp add: ShouldBlockKey_full_entry_def ShouldBlockKey_entry_def Let_def
      split: if_splits)

lemma unset_not_repeat_run:
  assumes "\<forall>e \<in> set es. snd (snd e) \<noteq> 0"
    and "\<forall>k. lastPressTime (entry ks k) = 0 \<longrightarrow> \<not> inRepeatMode (entry ks k)"
  shows "lastPressTime (entry (snd (run_events ShouldBlockKey_full ks es)) k) = 0
           \<longrightarrow> \<not> inRepeatMode (entry (snd (run_events ShouldBlockKey_full ks es)) k)"
  using assms
proof (induction es arbitrary: ks)
  case Nil
  then show ?case by simp
next
  case (Cons e es)
  obtain k' d t where e: "e = (k', d, t)"
    by (cases e) auto
  let ?ks1 = "snd (ShouldBlockKey_full ks k' d t)"
  have "\<forall>k. lastPressTime (entry ?ks1 k) = 0 \<longrightarrow> \<not> inRepeatMode (entry ?ks1 k)"
  proof
    fix k
    show "lastPressTime (entry ?ks1 k) = 0 \<longrightarrow> \<not> inRepeatMode (entry ?ks1 k)"
    proof (cases "k = k'")
      case True
      then show ?thesis
        using unset_not_repeat_entry(1) [of "entry ks k'" t d] Cons.prems e
        by (simp add: ShouldBlockKey_full_table entry_upd_same)
    next
      case False
      then show ?thesis
        using Cons.prems(2) by (simp add: ShouldBlockKey_full_table entry_def)
    qed
  qed
  moreover have "\<forall>e \<in> set es. snd (snd e) \<noteq> 0"
    using Cons.prems by simp
  ultimately show ?case
    using Cons.IH [of ?ks1] by (simp add: e run_events_Cons del: run_events.simps)
qed

text \<open>
  Claim C3. In the full hook, a key-down event at \<open>t\<close> on a key with
  \<open>lastReleaseTime > lastPressTime\<close> and \<open>t - lastReleaseTime \<ge> 20\<close> is passed whatever
  its distance to the recorded press; \<open>lastPressTime\<close> becomes \<open>t\<close> and \<open>inRepeatMode\<close>
  is false afterwards. (The entry is one in which a key without a recorded press is not
  in repeat mode, which \<open>unset_not_repeat_run\<close> shows for every table the hook can build
  from clock readings other than 0.) For instance, on a fresh table and for every \<open>t0\<close>,
  a press at \<open>t0\<close>, a release at \<open>t0 + 10\<close> and a press at \<open>t0 + 30\<close> are all
  passed, although 30 is under the initial threshold.
\<close>

theorem double_tap_override:
  assumes "ks vk = Some s"
    and "lastReleaseTime s > lastPressTime s"
    and "t - lastReleaseTime s \<ge> MIN_RELEASE_DURATION_MS"
    and "lastPressTime s = 0 \<longrightarrow> \<not> inRepeatMode s"
  shows "ShouldBlockKey_full ks vk True t =
           (False, ks(vk \<mapsto> s\<lparr>lastPressTime := t, inRepeatMode := False\<rparr>))
       \<and> run_events ShouldBlockKey_full Map.empty
             [(vk, True, t0), (vk, False, t0 + 10), (vk, True, t0 + 30)] =
           ([False, False, False],
            [vk \<mapsto> \<lparr>lastPressTime = t0 + 30, lastReleaseTime = t0 + 10,
                     inRepeatMode = False, blockedCount = 0\<rparr>])
       \<and> (t0 + 30) - t0 < INITIAL_CHATTER_THRESHOLD_MS"
proof (intro conjI)
  show "ShouldBlockKey_full ks vk True t =
           (False, ks(vk \<mapsto> s\<lparr>lastPressTime := t, inRepeatMode := False\<rparr>))"
  proof (cases "lastPressTime s = 0")
    case True
    with assms have eq: "s\<lparr>lastPressTime := t, inRepeatMode := False\<rparr> = s\<lparr>lastPressTime := t\<rparr>"
      by (cases s) simp
    from True assms show ?thesis
      unfolding eq by (simp add: ShouldBlockKey_full_table entry_Some entry_press_unset)
  next
    case False
    with assms show ?thesis
      by (simp add: ShouldBlockKey_full_table entry_Some entry_full_press_set
          MIN_RELEASE_DURATION_MS_def)
  qed
next
  show "run_events ShouldBlockKey_full Map.empty
             [(vk, True, t0), (vk, False, t0 + 10), (vk, True, t0 + 30)] =
           ([False, False, False],
            [vk \<mapsto> \<lparr>lastPressTime = t0 + 30, lastReleaseTime = t0 + 10,
                     inRepeatMode = False, blockedCount = 0\<rparr>])"
    by (simp add: run_events_Cons ShouldBlockKey_full_table entry_def
        ShouldBlockKey_full_entry_def KeyState_default_def MIN_RELEASE_DURATION_MS_def)
next
  show "(t0 + 30) - t0 < INITIAL_CHATTER_THRESHOLD_MS"
    by (simp add: INITIAL_CHATTER_THRESHOLD_MS_def)
qed


theorem double_tap_override_witness:
  "[65 \<mapsto> KeyState_default\<lparr>lastPressTime := 1000, lastReleaseTime := 1010\<rparr>] (65 :: DWORD)
      = Some (KeyState_default\<lparr>lastPressTime := 1000, lastReleaseTime := 1010\<rparr>)
   \<and> lastReleaseTime (KeyState_default\<lparr>lastPressTime := 1000, lastReleaseTime := 1010\<rparr>)
       > lastPressTime (KeyState_default\<lparr>lastPressTime := 1000, lastReleaseTime := 1010\<rparr>)
   \<and> 1030 - lastReleaseTime (KeyState_default\<lparr>lastPressTime := 1000, lastReleaseTime := 1010\<rparr>)
       \<ge> MIN_RELEASE_DURATION_MS
   \<and> lastPressTime (KeyState_default\<lparr>lastPressTime := 1000, lastReleaseTime := 1010\<rparr>) \<noteq> 0
   \<and> ShouldBlockKey_full
         [65 \<mapsto> KeyState_default\<lparr>lastPressTime := 1000, lastReleaseTime := 1010\<rparr>] 65 True 1030
       = (False, [65 \<mapsto> KeyState_default\<lparr>lastPressTime := 1030, lastReleaseTime := 1010\<rparr>])
   \<and> run_events ShouldBlockKey_full Map.empty
         [(65, True, 1000), (65, False, 1000 + 10), (65, True, 1000 + 30)] =
       ([False, False, False],
        [65 \<mapsto> \<lparr>lastPressTime = 1000 + 30, lastReleaseTime = 1000 + 10,
                 inRepeatMode = False, blockedCount = 0\<rparr>])"
  using double_tap_override
    [of "[65 \<mapsto> KeyState_default\<lparr>lastPressTime := 1000, lastReleaseTime := 1010\<rparr>]" 65
      "KeyState_default\<lparr>lastPressTime := 1000, lastReleaseTime := 1010\<rparr>" 1030 1000]
  by (simp add: KeyState_default_def MIN_RELEASE_DURATION_MS_def del: run_events.simps)

subsection \<open>Independence of the keys\<close>

text \<open>
  The lemmas are stated for any decision function \<open>f\<close> and any way \<open>view\<close> of reading
  the state of one key from the whole state, under two assumptions: a call for key \<open>k\<close>
  leaves the view of every other key as it was, and its decision and the new view of \<open>k\<close>
  depend on the old view of \<open>k\<close> only.
\<close>

lemma decisions_for_Cons:
  "decisions_for key f s ((k, d, t) # es) =
     (if k = key then [fst (f s k d t)] else []) @ decisions_for key f (snd (f s k d t)) es"
  by (simp split: prod.splits)

lemma decisions_for_view:
  assumes frame: "\<And>s k d t k'. k' \<noteq> k \<Longrightarrow> view (snd (f s k d t)) k' = view s k'"
    and loc: "\<And>s s' k d t. view s k = view s' k \<Longrightarrow>
                fst (f s k d t) = fst (f s' k d t)
                \<and> view (snd (f s k d t)) k = view (snd (f s' k d t)) k"
  shows "view s key = view s' key \<Longrightarrow> decisions_for key f s es = decisions_for key f s' es"
proof (induction es arbitrary: s s')
  case Nil
  then show ?case by simp
next
  case (Cons e es)
  obtain k d t where e: "e = (k, d, t)"
    by (cases e) auto
  have v: "view (snd (f s k d t)) key = view (snd (f s' k d t)) key"
  proof (cases "k = key")
    case True
    with loc [of s k s' d t] Cons.prems show ?thesis by simp
  next
    case False
    with frame [of key k] Cons.prems show ?thesis by simp
  qed
  have "k = key \<Longrightarrow> fst (f s k d t) = fst (f s' k d t)"
    using loc [of s k s' d t] Cons.prems by simp
  with Cons.IH [OF v] show ?case
    unfolding e decisions_for_Cons by simp
qed

lemma decisions_for_drop_other:
  assumes frame: "\<And>s k d t k'. k' \<noteq> k \<Longrightarrow> view (snd (f s k d t)) k' = view s k'"
    and loc: "\<And>s s' k d t. view s k = view s' k \<Longrightarrow>
                fst (f s k d t) = fst (f s' k d t)
                \<and> view (snd (f s k d t)) k = view (snd (f s' k d t)) k"
    and neq: "a \<noteq> key"
  shows "decisions_for key f s (xs @ (a, d, t) # ys) = decisions_for key f s (xs @ ys)"
proof (induction xs arbitrary: s)
  case Nil
  have "view (snd (f s a d t)) key = view s key"
    using frame [of key a] neq by simp
  from decisions_for_view [of view f, OF frame loc this]
  show ?case
    using neq by (simp add: decisions_for_Cons del: decisions_for.simps)
next
  case (Cons e xs)
  obtain k d' t' where e: "e = (k, d', t')"
    by (cases e) auto
  show ?case
    unfolding e append_Cons decisions_for_Cons using Cons.IH by simp
qed

lemma decisions_for_filter:
  assumes frame: "\<And>s k d t k'. k' \<noteq> k \<Longrightarrow> view (snd (f s k d t)) k' = view s k'"
    and loc: "\<And>s s' k d t. view s k = view s' k \<Longrightarrow>
                fst (f s k d t) = fst (f s' k d t)
                \<and> view (snd (f s k d t)) k = view (snd (f s' k d t)) k"
  shows "decisions_for key f s es = fst (run_events f s (filter (\<lambda>e. fst e = key) es))"
proof (induction es arbitrary: s)
  case Nil
  then show ?case by simp
next
  case (Cons e es)
  obtain k d t where e: "e = (k, d, t)"
    by (cases e) auto
  show ?case
  proof (cases "k = key")
    case True
    then show ?thesis
      unfolding e using Cons.IH [of "snd (f s k d t)"]
      by (simp add: decisions_for_Cons run_events_Cons del: decisions_for.simps run_events.simps)
  next
    case False
    have "view (snd (f s k d t)) key = view s key"
      using frame [of key k] False by simp
    from decisions_for_view [of view f, OF frame loc this]
    have "decisions_for key f (snd (f s k d t)) es = decisions_for key f s es" .
    with False Cons.IH [of s] show ?thesis
      unfolding e by (simp add: decisions_for_Cons del: decisions_for.simps)
  qed
qed

lemma ShouldBlockKey_frame: "k' \<noteq> k \<Longrightarrow> snd (ShouldBlockKey ks k d t) k' = ks k'"
  by (simp add: ShouldBlockKey_table)

lemma ShouldBlockKey_local:
  "ks k = ks' k \<Longrightarrow>
   fst (ShouldBlockKey ks k d t) = fst (ShouldBlockKey ks' k d t)
   \<and> snd (ShouldBlockKey ks k d t) k = snd (ShouldBlockKey ks' k d t) k"
  by (simp add: ShouldBlockKey_table entry_def)

lemma ShouldBlockKey_full_frame: "k' \<noteq> k \<Longrightarrow> snd (ShouldBlockKey_full ks k d t) k' = ks k'"
  by (simp add: ShouldBlockKey_full_table)

lemma ShouldBlockKey_full_local:
  "ks k = ks' k \<Longrightarrow>
   fst (ShouldBlockKey_full ks k d t) = fst (ShouldBlockKey_full ks' k d t)
   \<and> snd (ShouldBlockKey_full ks k d t) k = snd (ShouldBlockKey_full ks' k d t) k"
  by (simp add: ShouldBlockKey_full_table entry_def)


lemma should_block_key_frame:
  "b \<noteq> a \<Longrightarrow> key_fields (snd (should_block_key self a ct)) b = key_fields self b"
  by (simp add: should_block_key_def key_fields_def Let_def)

lemma should_block_key_local:
  "key_fields self a = key_fields self' a \<Longrightarrow>
   fst (should_block_key self a ct) = fst (should_block_key self' a ct)
   \<and> key_fields (snd (should_block_key self a ct)) a
       = key_fields (snd (should_block_key self' a ct)) a"
  by (simp add: should_block_key_def key_fields_def Let_def)

text \<open>
  Claim C8. Let \<open>A\<close> and \<open>B\<close> be different keys. In both C++ hooks a call for \<open>A\<close>
  leaves the entry of \<open>B\<close> as it was; its decision and the new entry of \<open>A\<close> do not
  change when the entry of \<open>B\<close> is replaced by anything (\<open>x\<close>), so the call does not
  read it; removing (or, read from right to left, inserting) an event of \<open>A\<close> anywhere
  in a sequence of events leaves the decisions of the events of \<open>B\<close> unchanged; and the
  decisions of the events of \<open>B\<close> are those of the sequence with the events of all other
  keys left out. The Python \<^verbatim>\<open>should_block_key\<close> likewise leaves the four values stored
  for another key string untouched and depends on those of its own key only.
\<close>

theorem independence_across_keys:
  assumes "A \<noteq> B" and "a \<noteq> b"
  shows "snd (ShouldBlockKey ks A d t) B = ks B
       \<and> fst (ShouldBlockKey (ks(B := x)) A d t) = fst (ShouldBlockKey ks A d t)
       \<and> snd (ShouldBlockKey (ks(B := x)) A d t) A = snd (ShouldBlockKey ks A d t) A
       \<and> decisions_for B ShouldBlockKey ks (xs @ (A, d, t) # ys)
           = decisions_for B ShouldBlockKey ks (xs @ ys)
       \<and> decisions_for B ShouldBlockKey ks es
           = fst (run_events ShouldBlockKey ks (filter (\<lambda>e. fst e = B) es))
       \<and> snd (ShouldBlockKey_full ks A d t) B = ks B
       \<and> fst (ShouldBlockKey_full (ks(B := x)) A d t) = fst (ShouldBlockKey_full ks A d t)
       \<and> snd (ShouldBlockKey_full (ks(B := x)) A d t) A = snd (ShouldBlockKey_full ks A d t) A
       \<and> decisions_for B ShouldBlockKey_full ks (xs @ (A, d, t) # ys)
           = decisions_for B ShouldBlockKey_full ks (xs @ ys)
       \<and> decisions_for B ShouldBlockKey_full ks es
           = fst (run_events ShouldBlockKey_full ks (filter (\<lambda>e. fst e = B) es))
       \<and> key_fields (snd (should_block_key self a ct)) b = key_fields self b
       \<and> (key_fields self a = key_fields self' a \<longrightarrow>
            fst (should_block_key self a ct) = fst (should_block_key self' a ct)
            \<and> key_fields (snd (should_block_key self a ct)) a
                = key_fields (snd (should_block_key self' a ct)) a)"
proof -
  have 1: "snd (ShouldBlockKey ks A d t) B = ks B"
    using assms by (simp add: ShouldBlockKey_frame)
  have 2: "fst (ShouldBlockKey (ks(B := x)) A d t) = fst (ShouldBlockKey ks A d t)
       \<and> snd (ShouldBlockKey (ks(B := x)) A d t) A = snd (ShouldBlockKey ks A d t) A"
    using assms by (intro ShouldBlockKey_local) simp
  have 3: "decisions_for B ShouldBlockKey ks (xs @ (A, d, t) # ys)
           = decisions_for B ShouldBlockKey ks (xs @ ys)"
    using assms(1)
    by (intro decisions_for_drop_other [where view = "\<lambda>ks k. ks k"]
        ShouldBlockKey_frame ShouldBlockKey_local)
  have 4: "decisions_for B ShouldBlockKey ks es
           = fst (run_events ShouldBlockKey ks (filter (\<lambda>e. fst e = B) es))"
    by (intro decisions_for_filter [where view = "\<lambda>ks k. ks k"]
        ShouldBlockKey_frame ShouldBlockKey_local)
  have 5: "snd (ShouldBlockKey_full ks A d t) B = ks B"
    using assms by (simp add: ShouldBlockKey_full_frame)
  have 6: "fst (ShouldBlockKey_full (ks(B := x)) A d t) = fst (ShouldBlockKey_full ks A d t)
       \<and> snd (ShouldBlockKey_full (ks(B := x)) A d t) A = snd (ShouldBlockKey_full ks A d t) A"
    using assms by (intro ShouldBlockKey_full_local) simp
  have 7: "decisions_for B ShouldBlockKey_full ks (xs @ (A, d, t) # ys)
           = decisions_for B ShouldBlockKey_full ks (xs @ ys)"
    using assms(1)
    by (intro decisions_for_drop_other [where view = "\<lambda>ks k. ks k"]
        ShouldBlockKey_full_frame ShouldBlockKey_full_local)
  have 8: "decisions_for B ShouldBlockKey_full ks es
           = fst (run_events ShouldBlockKey_full ks (filter (\<lambda>e. fst e = B) es))"
    by (intro decisions_for_filter [where view = "\<lambda>ks k. ks k"]
        ShouldBlockKey_full_frame ShouldBlockKey_full_local)
  have 9: "key_fields (snd (should_block_key self a ct)) b = key_fields self b"
    using assms by (simp add: should_block_key_frame)
  have 10: "key_fields self a = key_fields self' a \<longrightarrow>
            fst (should_block_key self a ct) = fst (should_block_key self' a ct)
            \<and> key_fields (snd (should_block_key self a ct)) a
                = key_fields (snd (should_block_key self' a ct)) a"
    using should_block_key_local by blast
  from 1 2 3 4 5 6 7 8 9 10 show ?thesis
    by blast
qed


theorem independence_across_keys_witness:
  "(65 :: DWORD) \<noteq> 66 \<and> ''a'' \<noteq> ''b''
   \<and> snd (ShouldBlockKey Map.empty 65 True 1010) 66 = None
   \<and> fst (ShouldBlockKey (Map.empty(66 := Some (KeyState_default\<lparr>lastPressTime := 1000\<rparr>)))
            65 True 1010) = fst (ShouldBlockKey Map.empty 65 True 1010)
   \<and> decisions_for 66 ShouldBlockKey Map.empty
        ([(66, True, 1000)] @ (65, True, 1010) # [(66, True, 1050)])
       = decisions_for 66 ShouldBlockKey Map.empty ([(66, True, 1000)] @ [(66, True, 1050)])
   \<and> decisions_for 66 ShouldBlockKey Map.empty
        [(66, True, 1000), (65, True, 1010), (66, True, 1050)] = [False, True]
   \<and> decisions_for 66 ShouldBlockKey_full Map.empty
        ([(66, True, 1000)] @ (65, True, 1010) # [(66, True, 1050)])
       = decisions_for 66 ShouldBlockKey_full Map.empty ([(66, True, 1000)] @ [(66, True, 1050)])
   \<and> key_fields (snd (should_block_key AdaptiveChatterBlocker_init ''a'' 1000)) ''b''
       = key_fields AdaptiveChatterBlocker_init ''b''"
proof -
  have n: "(65 :: DWORD) \<noteq> 66" "''a'' \<noteq> ''b''"
    by simp_all
  have f: "filter (\<lambda>e. fst e = (66 :: DWORD)) [(66, True, 1000 :: int), (65, True, 1010), (66, True, 1050)]
             = [(66, True, 1000), (66, True, 1050)]"
    by simp
  have r: "fst (run_events ShouldBlockKey Map.empty [(66, True, 1000), (66, True, 1050)])
             = [False, True]"
    by (simp add: run_events_Cons ShouldBlockKey_table entry_def ShouldBlockKey_entry_def
        KeyState_default_def CHATTER_THRESHOLD_MS_def REPEAT_CHATTER_THRESHOLD_MS_def
        REPEAT_TRANSITION_DELAY_MS_def)
  from independence_across_keys [OF n, of Map.empty True 1010
      "Some (KeyState_default\<lparr>lastPressTime := 1000\<rparr>)"
      "[(66, True, 1000)]" "[(66, True, 1050)]"
      "[(66, True, 1000), (65, True, 1010), (66, True, 1050)]"
      AdaptiveChatterBlocker_init 1000 AdaptiveChatterBlocker_init]
  show ?thesis
    unfolding f r using n by blast
qed

subsection \<open>The pattern-based classifier\<close>

text \<open>
  With at least three recorded presses, the average computed by the method is that of
  the last two distances between recorded presses.
\<close>

lemma avg_interval_last_two:
  assumes "length h \<ge> 3"
  shows "avg_interval h =
           ((h ! (length h - 2) - h ! (length h - 3))
            + (h ! (length h - 1) - h ! (length h - 2))) / 2"
proof -
  have "nat (int (length h) - 1) = length h - 1" "nat (int (length h) - 2) = length h - 2"
    "nat (int (length h) - 3) = length h - 3"
    using assms by simp_all
  then show ?thesis
    by (simp add: avg_interval_def intervals_def py_index_def)
qed

lemma py_index_last: "h \<noteq> [] \<Longrightarrow> py_index h (- 1) = last h"
proof -
  assume "h \<noteq> []"
  moreover have "nat (int (length h) - 1) = length h - 1"
    by simp
  ultimately show ?thesis
    by (simp add: py_index_def last_conv_nth)
qed

text \<open>
  Claim C9. Let \<open>h\<close> be the recorded presses of the key. With \<open>h\<close> empty the press is
  passed and recorded. Otherwise let the gap be \<open>t - last h\<close>. A gap under 20 is
  blocked. With a gap of at least 20 and at least three recorded presses, the press is
  blocked exactly when the gap is under 40 and differs from the average of the last two
  distances between recorded presses by more than 20. With a gap of at least 20 and
  fewer than three recorded presses it is passed. A passed press is appended to the
  history (the oldest entry is dropped when the history had reached \<open>history_size\<close>), so
  it is the last entry afterwards, and nothing else changes; a blocked press only adds
  one to the counter of the key.
\<close>

theorem pattern_rule:
  assumes "press_history self key_str = h"
  shows "(h = [] \<longrightarrow>
            pattern_should_block_key self key_str t =
              (False, self\<lparr>press_history := (press_history self)(key_str := [t])\<rparr>))
       \<and> (h \<noteq> [] \<and> t - last h < 20 \<longrightarrow> fst (pattern_should_block_key self key_str t))
       \<and> (h \<noteq> [] \<and> \<not> t - last h < 20 \<and> length h \<ge> 3 \<longrightarrow>
            fst (pattern_should_block_key self key_str t) =
              (t - last h < 40
               \<and> \<bar>(t - last h)
                  - ((h ! (length h - 2) - h ! (length h - 3))
                     + (h ! (length h - 1) - h ! (length h - 2))) / 2\<bar> > 20))
       \<and> (h \<noteq> [] \<and> \<not> t - last h < 20 \<and> length h < 3 \<longrightarrow>
            \<not> fst (pattern_should_block_key self key_str t))
       \<and> (\<not> fst (pattern_should_block_key self key_str t) \<longrightarrow>
            snd (pattern_should_block_key self key_str t) =
              self\<lparr>press_history := (press_history self)
                 (key_str := if h = [] \<or> length h < history_size self then h @ [t]
                             else tl (h @ [t]))\<rparr>
            \<and> last (press_history (snd (pattern_should_block_key self key_str t)) key_str) = t)
       \<and> (fst (pattern_should_block_key self key_str t) \<longrightarrow>
            snd (pattern_should_block_key self key_str t) =
              self\<lparr>pattern_blocked_count := (pattern_blocked_count self)
                 (key_str := pattern_blocked_count self key_str + 1)\<rparr>)"
proof (cases "h = []")
  case True
  with assms show ?thesis
    by (simp add: pattern_should_block_key_def)
next
  case False
  note ne = False
  show ?thesis
  proof (cases "length h \<ge> 3")
    case True
    with ne assms show ?thesis
      by (simp add: pattern_should_block_key_def Let_def py_index_last avg_interval_last_two)
  next
    case False
    with ne assms show ?thesis
      by (simp add: pattern_should_block_key_def Let_def py_index_last)
  qed
qed


theorem pattern_rule_witness:
  "press_history
     (PatternBasedChatterBlocker_init\<lparr>press_history := (\<lambda>_. [])(''a'' := [1000, 1100, 1200])\<rparr>)
     ''a'' = [1000, 1100, 1200]
   \<and> fst (pattern_should_block_key
       (PatternBasedChatterBlocker_init\<lparr>press_history := (\<lambda>_. [])(''a'' := [1000, 1100, 1200])\<rparr>)
       ''a'' 1210)
   \<and> fst (pattern_should_block_key
       (PatternBasedChatterBlocker_init\<lparr>press_history := (\<lambda>_. [])(''a'' := [1000, 1100, 1200])\<rparr>)
       ''a'' 1225)
   \<and> \<not> fst (pattern_should_block_key
       (PatternBasedChatterBlocker_init\<lparr>press_history := (\<lambda>_. [])(''a'' := [1000, 1100, 1200])\<rparr>)
       ''a'' 1300)
   \<and> last (press_history (snd (pattern_should_block_key
       (PatternBasedChatterBlocker_init\<lparr>press_history := (\<lambda>_. [])(''a'' := [1000, 1100, 1200])\<rparr>)
       ''a'' 1300)) ''a'') = 1300"
proof -
  let ?S = "PatternBasedChatterBlocker_init
              \<lparr>press_history := (\<lambda>_. [])(''a'' := [1000, 1100, 1200])\<rparr>"
  have h: "press_history ?S ''a'' = [1000, 1100, 1200]"
    by simp
  have i: "[1000, 1100, 1200 :: real] ! (length [1000, 1100, 1200 :: real] - 1) = 1200"
    "[1000, 1100, 1200 :: real] ! (length [1000, 1100, 1200 :: real] - 2) = 1100"
    "[1000, 1100, 1200 :: real] ! (length [1000, 1100, 1200 :: real] - 3) = 1000"
    by simp_all
  have a: "fst (pattern_should_block_key ?S ''a'' 1210)"
    using pattern_rule [OF h, of 1210] by simp
  have b: "fst (pattern_should_block_key ?S ''a'' 1225)"
    using pattern_rule [OF h, of 1225] unfolding i by simp
  have c: "\<not> fst (pattern_should_block_key ?S ''a'' 1300)"
    using pattern_rule [OF h, of 1300] unfolding i by simp
  have d: "last (press_history (snd (pattern_should_block_key ?S ''a'' 1300)) ''a'') = 1300"
    using pattern_rule [OF h, of 1300] c by blast
  from h a b c d show ?thesis
    by blast
qed

end
